theory Spec2Isabelle
  imports Main
begin

section \<open>The embedded browser pane (\<open>WebViewComponent\<close>, src/app/index.tsx lines 36-83)\<close>

text \<open>
  The component owns one piece of React state, \<open>errorMessage : string | null\<close>. The
  \<open>WebView\<close> element it renders is the component imported at line 15 from
  \<open>react-native-webview\<close>: what that element shows inside its own frame is decided by the
  engine, which calls the render props the source passes (\<open>renderLoading\<close>,
  \<open>renderError\<close>) and the callbacks (\<open>onError\<close>, \<open>onHttpError\<close>). The engine's choice is
  recorded in \<open>engineView\<close>; the source fixes only what each render prop returns and what
  each callback does to \<open>errorMessage\<close>.

  The engine has no render error apart from a load error: when a load fails it calls
  \<open>onError\<close> with the event, and from then on shows \<open>renderError(errorName, ...)\<close> for that
  same event. An HTTP error only calls \<open>onHttpError\<close> and leaves the frame as it is. So a
  load error is one event, carrying the name handed to \<open>renderError\<close> and the
  \<open>description\<close> read by \<open>handleLoadError\<close>.
\<close>

text \<open>A JavaScript template literal prints a non-negative integer in decimal.\<close>

fun decimal :: "nat \<Rightarrow> string" where
  "decimal n =
     (if n < 10 then [''0123456789'' ! n]
      else decimal (n div 10) @ [''0123456789'' ! (n mod 10)])"

declare decimal.simps [simp del]

datatype engine_view =
    ShowsLoading            \<comment> \<open>\<open>startInLoadingState\<close>: the engine shows \<open>renderLoading()\<close>\<close>
  | ShowsPage               \<comment> \<open>the page at the fixed uri\<close>
  | ShowsError string       \<comment> \<open>the engine shows \<open>renderError(errorName)\<close>\<close>

record WebViewComponent =
  errorMessage :: "string option"
  engineView :: engine_view
  warnings :: "string list"      \<comment> \<open>\<open>console.warn\<close>\<close>

datatype pane_event =
    OnError string string   \<comment> \<open>a load error: the \<open>errorName\<close> the engine gives \<open>renderError\<close>,
                                and the \<open>nativeEvent.description\<close> it gives \<open>onError\<close>\<close>
  | OnHttpError nat         \<comment> \<open>\<open>onHttpError\<close> with \<open>nativeEvent.statusCode\<close>\<close>
  | EngineLoaded            \<comment> \<open>the engine has painted the page\<close>

definition uri :: string where
  "uri = ''https://alicomms.com/''"

definition WebViewComponent_init :: WebViewComponent where
  "WebViewComponent_init =
     \<lparr>errorMessage = None, engineView = ShowsLoading, warnings = []\<rparr>"

definition handleLoadError :: "string \<Rightarrow> WebViewComponent \<Rightarrow> WebViewComponent" where
  "handleLoadError description st =
     st\<lparr>warnings := warnings st @ [''WebView error:''],
        errorMessage := Some (''Load Error: '' @ description)\<rparr>"

definition onHttpError :: "nat \<Rightarrow> WebViewComponent \<Rightarrow> WebViewComponent" where
  "onHttpError statusCode st =
     st\<lparr>warnings := warnings st @ [''HTTP error: '' @ decimal statusCode],
        errorMessage := Some (''HTTP Error: '' @ decimal statusCode)\<rparr>"

text \<open>The text of the \<open>errorContainer\<close> view that the \<open>renderError\<close> prop returns.\<close>

definition renderError :: "string \<Rightarrow> string" where
  "renderError errorName = ''WebView Error: '' @ errorName"

definition renderLoading :: string where
  "renderLoading = ''Loading...''"

fun pane_step :: "WebViewComponent \<Rightarrow> pane_event \<Rightarrow> WebViewComponent" where
  "pane_step st (OnError errorName description) =
     (handleLoadError description st)\<lparr>engineView := ShowsError errorName\<rparr>"
| "pane_step st (OnHttpError statusCode) = onHttpError statusCode st"
| "pane_step st EngineLoaded = st\<lparr>engineView := ShowsPage\<rparr>"

definition pane_run :: "WebViewComponent \<Rightarrow> pane_event list \<Rightarrow> WebViewComponent" where
  "pane_run st evs = foldl pane_step st evs"

text \<open>
  The children of the \<open>webviewContainer\<close> view, in source order: the \<open>WebView\<close> element
  (always present), then the banner of \<open>{errorMessage && (...)}\<close>. An empty string is
  falsy in JavaScript, as \<open>null\<close> is.
\<close>

datatype web_frame =
    LoadingView string      \<comment> \<open>the \<open>loading\<close> view with its text\<close>
  | Page string             \<comment> \<open>the page of the uri\<close>
  | ErrorContainer string   \<comment> \<open>the \<open>errorContainer\<close> view: one text, nothing to press\<close>

datatype pane_element =
    WebView web_frame
  | ErrorBanner string

definition frame :: "engine_view \<Rightarrow> web_frame" where
  "frame v =
     (case v of
        ShowsLoading \<Rightarrow> LoadingView renderLoading
      | ShowsPage \<Rightarrow> Page uri
      | ShowsError errorName \<Rightarrow> ErrorContainer (renderError errorName))"

definition banner :: "string option \<Rightarrow> pane_element list" where
  "banner m = (case m of None \<Rightarrow> [] | Some s \<Rightarrow> if s = [] then [] else [ErrorBanner s])"

definition WebViewComponent_render :: "WebViewComponent \<Rightarrow> pane_element list" where
  "WebViewComponent_render st = WebView (frame (engineView st)) # banner (errorMessage st)"

fun is_banner :: "pane_element \<Rightarrow> bool" where
  "is_banner (ErrorBanner _) = True"
| "is_banner (WebView _) = False"

fun is_WebView :: "pane_element \<Rightarrow> bool" where
  "is_WebView (WebView _) = True"
| "is_WebView (ErrorBanner _) = False"

definition banners :: "WebViewComponent \<Rightarrow> pane_element list" where
  "banners st = filter is_banner (WebViewComponent_render st)"

definition browser_views :: "WebViewComponent \<Rightarrow> pane_element list" where
  "browser_views st = filter is_WebView (WebViewComponent_render st)"


section \<open>The onboarding screen (\<open>SplashScreen\<close>, src/app/index.tsx lines 85-225)\<close>

record faq =
  question :: string
  answer :: string

definition FAQs :: "faq list" where
  "FAQs =
     [\<lparr>question = ''What is AliComms?'',
       answer = ''Is a modern interactive e-commerce platform.''\<rparr>,
      \<lparr>question = ''Are your products genuine?'',
       answer = ''Yes, we only sell genuine products from verified suppliers.''\<rparr>,
      \<lparr>question = ''Which payment methods do you accept?'',
       answer = ''We accept all major credit and debit cards, as well as bank transfers, USSD, and mobile money.''\<rparr>]"

subsection \<open>AsyncStorage\<close>

text \<open>
  The storage is outside the repository. It is a key-value store whose two promises
  either fulfil or reject; whether they reject is a property of the store the screen is
  mounted against.
\<close>

datatype storage_error = StorageError

record AsyncStorage =
  items :: "string \<rightharpoonup> string"
  getItemRejects :: bool
  setItemRejects :: bool

definition getItem :: "string \<Rightarrow> AsyncStorage \<Rightarrow> storage_error + string option" where
  "getItem key store =
     (if getItemRejects store then Inl StorageError else Inr (items store key))"

definition setItem ::
  "string \<Rightarrow> string \<Rightarrow> AsyncStorage \<Rightarrow> (storage_error + unit) \<times> AsyncStorage" where
  "setItem key v store =
     (if setItemRejects store then (Inl StorageError, store)
      else (Inr (), store\<lparr>items := (items store)(key \<mapsto> v)\<rparr>))"

text \<open>\<open>if (hasVisited)\<close> on a \<open>string | null\<close>: \<open>null\<close> and the empty string are falsy.\<close>

definition truthy :: "string option \<Rightarrow> bool" where
  "truthy v = (case v of None \<Rightarrow> False | Some str \<Rightarrow> str \<noteq> [])"

subsection \<open>State\<close>

text \<open>
  \<open>checkFirstTime\<close> is an async function: it runs to its first \<open>await\<close> when the effect
  calls it, and each later piece runs when the awaited promise settles. \<open>pc\<close> is the
  \<open>await\<close> it is suspended at.
\<close>

datatype checkFirstTime_pc = AwaitGetItem | AwaitSetItem | Settled

text \<open>The closure \<open>() => clearTimeout(timer)\<close>.\<close>

datatype cleanup = ClearTimeout nat

text \<open>One call of the \<open>onDone\<close> prop: when, and whether the screen was mounted then.\<close>

record done_call =
  calledAt :: nat
  mountedThen :: bool

text \<open>\<open>Animated.timing(fadeAnim, {toValue, duration})\<close>.\<close>

datatype timing = Timing nat nat

text \<open>
  A started \<open>Animated.sequence\<close> of \<open>handleNextFAQ\<close>: the timings not yet finished (the
  head is the one running), the \<open>currentFAQ\<close> its completion callback closed over, and the
  \<open>Animated.Value\<close> it animates.

  \<open>fadeAnim\<close> is \<open>new Animated.Value(0)\<close> in the body of the component, so every render
  makes a new one; values are numbered in the order in which \<open>handleNextFAQ\<close> comes to
  hold them.
\<close>

record sequence_run =
  steps :: "timing list"
  captured :: nat
  animatedValue :: nat

record SplashScreen =
  isFirstTime :: "bool option"          \<comment> \<open>\<open>useState<boolean | null>(null)\<close>\<close>
  currentFAQ :: nat                     \<comment> \<open>\<open>useState(0)\<close>\<close>
  fadeAnim :: nat                       \<comment> \<open>the \<open>fadeAnim\<close> inside the memoised \<open>handleNextFAQ\<close>\<close>
  mounted :: bool
  pc :: checkFirstTime_pc
  asyncResult :: "cleanup option"       \<comment> \<open>what the promise of \<open>checkFirstTime()\<close> fulfilled with\<close>
  effectCleanup :: "cleanup option"     \<comment> \<open>what the effect callback returned to React\<close>
  timers :: "(nat \<times> nat) list"          \<comment> \<open>pending \<open>setTimeout(onDone, _)\<close>: id and due time\<close>
  nextTimer :: nat
  clock :: nat                          \<comment> \<open>milliseconds\<close>
  running :: "sequence_run list"
  storage :: AsyncStorage
  doneCalls :: "done_call list"
  errors :: "string list"               \<comment> \<open>\<open>console.error\<close>\<close>

text \<open>
  Mounting renders once and runs the first effect. The effect callback defines
  \<open>checkFirstTime\<close>, calls it without using its promise, and returns nothing, so React
  gets no cleanup from it; the call itself runs up to \<open>await AsyncStorage.getItem\<close>.
\<close>

definition SplashScreen_mount :: "AsyncStorage \<Rightarrow> nat \<Rightarrow> SplashScreen" where
  "SplashScreen_mount store t =
     \<lparr>isFirstTime = None, currentFAQ = 0, fadeAnim = 0, mounted = True, pc = AwaitGetItem,
      asyncResult = None, effectCleanup = None, timers = [], nextTimer = 0, clock = t,
      running = [], storage = store, doneCalls = [], errors = []\<rparr>"

subsection \<open>Operations\<close>

definition onDone_at :: "nat \<Rightarrow> SplashScreen \<Rightarrow> SplashScreen" where
  "onDone_at t s = s\<lparr>doneCalls := doneCalls s @ [\<lparr>calledAt = t, mountedThen = mounted s\<rparr>]\<rparr>"

definition onDone :: "SplashScreen \<Rightarrow> SplashScreen" where
  "onDone s = onDone_at (clock s) s"

definition setTimeout_onDone :: "nat \<Rightarrow> SplashScreen \<Rightarrow> nat \<times> SplashScreen" where
  "setTimeout_onDone delay s =
     (nextTimer s,
      s\<lparr>timers := timers s @ [(nextTimer s, clock s + delay)], nextTimer := Suc (nextTimer s)\<rparr>)"

definition clearTimeout :: "nat \<Rightarrow> SplashScreen \<Rightarrow> SplashScreen" where
  "clearTimeout timer s = s\<lparr>timers := filter (\<lambda>(i, d). i \<noteq> timer) (timers s)\<rparr>"

text \<open>React drops a state update of a component that is no longer mounted.\<close>

definition setIsFirstTime :: "bool \<Rightarrow> SplashScreen \<Rightarrow> SplashScreen" where
  "setIsFirstTime v s = (if mounted s then s\<lparr>isFirstTime := Some v\<rparr> else s)"

text \<open>
  \<open>handleNextFAQ\<close> is \<open>useCallback(..., [currentFAQ])\<close>: it is made anew, closing over the
  \<open>fadeAnim\<close> of that render, exactly when a render finds \<open>currentFAQ\<close> changed. Setting
  the state to the value it has renders nothing.
\<close>

definition setCurrentFAQ :: "nat \<Rightarrow> SplashScreen \<Rightarrow> SplashScreen" where
  "setCurrentFAQ n s =
     (if mounted s \<and> n \<noteq> currentFAQ s
      then s\<lparr>currentFAQ := n, fadeAnim := Suc (fadeAnim s)\<rparr>
      else s)"

text \<open>The \<open>catch\<close> block of \<open>checkFirstTime\<close>.\<close>

definition catch_block :: "SplashScreen \<Rightarrow> SplashScreen" where
  "catch_block s =
     onDone (s\<lparr>errors := errors s @ [''Error checking first-time visit:''], pc := Settled\<rparr>)"

text \<open>\<open>checkFirstTime\<close> from the point where \<open>getItem('hasVisited')\<close> settles.\<close>

definition after_getItem :: "SplashScreen \<Rightarrow> SplashScreen" where
  "after_getItem s =
     (case getItem ''hasVisited'' (storage s) of
        Inl e \<Rightarrow> catch_block s
      | Inr hasVisited \<Rightarrow>
          if truthy hasVisited then
            (let (timer, s') = setTimeout_onDone 3000 s
             in s'\<lparr>pc := Settled, asyncResult := Some (ClearTimeout timer)\<rparr>)
          else s\<lparr>pc := AwaitSetItem\<rparr>)"

text \<open>\<open>checkFirstTime\<close> from the point where \<open>setItem('hasVisited', 'true')\<close> settles.\<close>

definition after_setItem :: "SplashScreen \<Rightarrow> SplashScreen" where
  "after_setItem s =
     (case setItem ''hasVisited'' ''true'' (storage s) of
        (Inl e, store) \<Rightarrow> catch_block (s\<lparr>storage := store\<rparr>)
      | (Inr u, store) \<Rightarrow> setIsFirstTime True (s\<lparr>storage := store, pc := Settled\<rparr>))"

definition promise_settles :: "SplashScreen \<Rightarrow> SplashScreen" where
  "promise_settles s =
     (case pc s of
        AwaitGetItem \<Rightarrow> after_getItem s
      | AwaitSetItem \<Rightarrow> after_setItem s
      | Settled \<Rightarrow> s)"

text \<open>
  Time passing by \<open>n\<close> ms runs every timer that has come due, each at its due time. All
  timers of the screen have the same delay, so the order of creation is the order of
  their due times.
\<close>

fun fire :: "(nat \<times> nat) list \<Rightarrow> SplashScreen \<Rightarrow> SplashScreen" where
  "fire [] s = s"
| "fire ((i, d) # ts) s = fire ts (onDone_at d s)"

definition time_passes :: "nat \<Rightarrow> SplashScreen \<Rightarrow> SplashScreen" where
  "time_passes n s =
     (let t = clock s + n;
          fired = filter (\<lambda>(i, d). d \<le> t) (timers s);
          pending = filter (\<lambda>(i, d). \<not> d \<le> t) (timers s)
      in fire fired (s\<lparr>timers := pending, clock := t\<rparr>))"

text \<open>React runs the cleanup the effect returned, if any, and removes the component.\<close>

definition unmount :: "SplashScreen \<Rightarrow> SplashScreen" where
  "unmount s =
     (case effectCleanup s of
        None \<Rightarrow> s\<lparr>mounted := False\<rparr>
      | Some (ClearTimeout timer) \<Rightarrow> (clearTimeout timer s)\<lparr>mounted := False\<rparr>)"

text \<open>
  The callback given to \<open>start\<close>: \<open>setCurrentFAQ((currentFAQ + 1) % FAQs.length)\<close> with
  the \<open>currentFAQ\<close> of the closure. It takes no argument, so it does the same whether the
  sequence finished or was stopped.
\<close>

definition start_callback :: "sequence_run \<Rightarrow> SplashScreen \<Rightarrow> SplashScreen" where
  "start_callback a s = setCurrentFAQ ((captured a + 1) mod length FAQs) s"

fun stop_runs :: "sequence_run list \<Rightarrow> SplashScreen \<Rightarrow> SplashScreen" where
  "stop_runs [] s = s"
| "stop_runs (a # rest) s = stop_runs rest (start_callback a s)"

text \<open>
  \<open>handleNextFAQ\<close> with the \<open>currentFAQ\<close> \<open>c\<close> and the \<open>fadeAnim\<close> \<open>v\<close> of its closure.
  Starting a timing on an \<open>Animated.Value\<close> stops the animation that is running on it;
  the stopped sequence ends there and its \<open>start\<close> callback runs at once. Then the new
  sequence runs on \<open>v\<close>.

  The entry animation of the second effect is started without a callback, and it starts
  on the \<open>fadeAnim\<close> of a render before any press can reach a closure holding that value,
  so it changes no state and stops no sequence of \<open>handleNextFAQ\<close>; it is left out.
\<close>

definition handleNextFAQ :: "nat \<Rightarrow> nat \<Rightarrow> SplashScreen \<Rightarrow> SplashScreen" where
  "handleNextFAQ c v s =
     (let stopped = filter (\<lambda>a. animatedValue a = v) (running s);
          others = filter (\<lambda>a. animatedValue a \<noteq> v) (running s)
      in (stop_runs stopped s)
           \<lparr>running := others @
              [\<lparr>steps = [Timing 0 300, Timing 1 300], captured = c, animatedValue = v\<rparr>]\<rparr>)"

text \<open>
  The \<open>i\<close>-th started sequence finishes the timing it is running. After the last one the
  callback given to \<open>start\<close> runs.
\<close>

definition animation_ends :: "nat \<Rightarrow> SplashScreen \<Rightarrow> SplashScreen" where
  "animation_ends i s =
     (if length (running s) \<le> i then s
      else
        (let a = running s ! i
         in case steps a of
              x # y # rest \<Rightarrow> s\<lparr>running := (running s)[i := a\<lparr>steps := y # rest\<rparr>]\<rparr>
            | _ \<Rightarrow>
                start_callback a
                  (s\<lparr>running := take i (running s) @ drop (Suc i) (running s)\<rparr>)))"

subsection \<open>Render\<close>

text \<open>\<open>HandleNextFAQ c v\<close> is the closure over \<open>currentFAQ = c\<close> and \<open>fadeAnim = v\<close>.\<close>

datatype handler = HandleNextFAQ nat nat | OnDone

datatype view =
    LoadingContainer                     \<comment> \<open>the \<open>ActivityIndicator\<close>\<close>
  | WelcomeBack string string string     \<comment> \<open>image source, title, subtitle\<close>
  | Carousel faq "bool list" string handler
      \<comment> \<open>the entry shown, the progress dots (active or not), the button's label and \<open>onPress\<close>\<close>
  | TypeError                            \<comment> \<open>\<open>FAQs[currentFAQ]\<close> is \<open>undefined\<close>\<close>

definition SplashScreen_render :: "SplashScreen \<Rightarrow> view" where
  "SplashScreen_render s =
     (case isFirstTime s of
        None \<Rightarrow> LoadingContainer
      | Some False \<Rightarrow>
          WelcomeBack ''../assets/images/loader.gif'' ''Welcome Back!''
            ''Redirecting to AliComms...''
      | Some True \<Rightarrow>
          if currentFAQ s < length FAQs then
            Carousel (FAQs ! currentFAQ s)
              (map (\<lambda>index. currentFAQ s = index) [0..<length FAQs])
              (if currentFAQ s < length FAQs - 1 then ''Next'' else ''Get Started'')
              (if currentFAQ s < length FAQs - 1
               then HandleNextFAQ (currentFAQ s) (fadeAnim s) else OnDone)
          else TypeError)"

text \<open>A press reaches the \<open>onPress\<close> of the button on screen, if there is one.\<close>

definition press :: "SplashScreen \<Rightarrow> SplashScreen" where
  "press s =
     (if \<not> mounted s then s
      else
        (case SplashScreen_render s of
           Carousel entry dots label h \<Rightarrow>
             (case h of HandleNextFAQ c v \<Rightarrow> handleNextFAQ c v s | OnDone \<Rightarrow> onDone s)
         | _ \<Rightarrow> s))"

subsection \<open>Events\<close>

datatype event =
    PromiseSettles          \<comment> \<open>the promise \<open>checkFirstTime\<close> awaits fulfils or rejects\<close>
  | TimePasses nat
  | Press
  | AnimationEnds nat
  | Unmount

fun SplashScreen_step :: "SplashScreen \<Rightarrow> event \<Rightarrow> SplashScreen" where
  "SplashScreen_step s PromiseSettles = promise_settles s"
| "SplashScreen_step s (TimePasses n) = time_passes n s"
| "SplashScreen_step s Press = press s"
| "SplashScreen_step s (AnimationEnds i) = animation_ends i s"
| "SplashScreen_step s Unmount = unmount s"

definition SplashScreen_run :: "SplashScreen \<Rightarrow> event list \<Rightarrow> SplashScreen" where
  "SplashScreen_run s evs = foldl SplashScreen_step s evs"


section \<open>The root selector (\<open>App\<close>, src/app/index.tsx lines 227-235)\<close>

text \<open>
  \<open>App\<close> renders \<open>SplashScreen\<close> while \<open>showSplash\<close> holds and \<open>WebViewComponent\<close>
  afterwards; the \<open>onDone\<close> it passes is \<open>() => setShowSplash(false)\<close>. \<open>App\<close> renders
  again only when \<open>showSplash\<close> changes, so the screen's first effect runs once per
  mount. \<open>Unmount\<close> at this level is the tearing down of the whole tree.
\<close>

record App =
  appMounted :: bool
  showSplash :: bool
  splashScreen :: SplashScreen
  webViewComponent :: "WebViewComponent option"

datatype app_event = ToSplash event | ToPane pane_event

definition App_mount :: "AsyncStorage \<Rightarrow> nat \<Rightarrow> App" where
  "App_mount store t =
     \<lparr>appMounted = True, showSplash = True, splashScreen = SplashScreen_mount store t,
      webViewComponent = None\<rparr>"

definition setShowSplash_False :: "App \<Rightarrow> App" where
  "setShowSplash_False a =
     (if appMounted a \<and> showSplash a
      then a\<lparr>showSplash := False, splashScreen := unmount (splashScreen a),
             webViewComponent := Some WebViewComponent_init\<rparr>
      else a)"

fun App_step :: "App \<Rightarrow> app_event \<Rightarrow> App" where
  "App_step a (ToSplash Unmount) =
     a\<lparr>appMounted := False, splashScreen := unmount (splashScreen a),
       webViewComponent := None\<rparr>"
| "App_step a (ToSplash e) =
     (let s = SplashScreen_step (splashScreen a) e
      in if length (doneCalls (splashScreen a)) < length (doneCalls s)
         then setShowSplash_False (a\<lparr>splashScreen := s\<rparr>)
         else a\<lparr>splashScreen := s\<rparr>)"
| "App_step a (ToPane e) =
     (case webViewComponent a of
        None \<Rightarrow> a
      | Some w \<Rightarrow> a\<lparr>webViewComponent := Some (pane_step w e)\<rparr>)"

definition App_run :: "App \<Rightarrow> app_event list \<Rightarrow> App" where
  "App_run a evs = foldl App_step a evs"

text \<open>
  One execution to the end for every store: the rejected read, the timer of a returning
  user, the rejected write, and the carousel pressed through all its entries.
\<close>

definition complete_path :: "AsyncStorage \<Rightarrow> event list" where
  "complete_path store =
     (if getItemRejects store then [PromiseSettles]
      else if truthy (items store ''hasVisited'') then [PromiseSettles, TimePasses 3000]
      else if setItemRejects store then [PromiseSettles, PromiseSettles]
      else [PromiseSettles, PromiseSettles,
            Press, AnimationEnds 0, AnimationEnds 0,
            Press, AnimationEnds 0, AnimationEnds 0,
            Press])"


section \<open>Invariants and example stores\<close>

text \<open>
  What holds of a screen on the timer path whose timer is due at \<open>D\<close>, as long as the
  screen stays mounted: before \<open>D\<close> the timer is pending and \<open>onDone\<close> has not been
  called; from \<open>D\<close> on it has been called once, at \<open>D\<close>.
\<close>

definition timer_path :: "nat \<Rightarrow> SplashScreen \<Rightarrow> bool" where
  "timer_path D s =
     (pc s = Settled \<and> isFirstTime s = None \<and> mounted s
      \<and> (if clock s < D then doneCalls s = [] \<and> (\<exists>i. timers s = [(i, D)])
          else doneCalls s = [\<lparr>calledAt = D, mountedThen = True\<rparr>] \<and> timers s = []))"

text \<open>
  What every reachable screen satisfies: at most one call and one timer; while
  \<open>checkFirstTime\<close> is suspended nothing has happened yet; a pending timer excludes both a
  call and the carousel.
\<close>

definition tidy :: "SplashScreen \<Rightarrow> bool" where
  "tidy s =
     (effectCleanup s = None
      \<and> length (doneCalls s) \<le> 1
      \<and> length (timers s) \<le> 1
      \<and> (pc s = Settled \<or> timers s = [] \<and> doneCalls s = [] \<and> isFirstTime s = None)
      \<and> (timers s = [] \<or> doneCalls s = [] \<and> isFirstTime s = None))"

definition once :: "App \<Rightarrow> bool" where
  "once a =
     (tidy (splashScreen a)
      \<and> (doneCalls (splashScreen a) = [] \<or> \<not> mounted (splashScreen a))
      \<and> (\<not> mounted (splashScreen a) \<or> appMounted a \<and> showSplash a)
      \<and> (showSplash a \<or> length (doneCalls (splashScreen a)) = 1))"

text \<open>
  Every sequence in flight runs on a value no newer than the one \<open>handleNextFAQ\<close> holds,
  and one that runs on that very value was started by the present closure, so it closed
  over the present \<open>currentFAQ\<close>.
\<close>

definition closures_ok :: "SplashScreen \<Rightarrow> bool" where
  "closures_ok s =
     list_all (\<lambda>a. animatedValue a < fadeAnim s
                  \<or> animatedValue a = fadeAnim s \<and> captured a = currentFAQ s)
       (running s)"

definition first_run_store :: AsyncStorage where
  "first_run_store = \<lparr>items = Map.empty, getItemRejects = False, setItemRejects = False\<rparr>"

definition returning_store :: AsyncStorage where
  "returning_store =
     \<lparr>items = [''hasVisited'' \<mapsto> ''true''], getItemRejects = False, setItemRejects = False\<rparr>"


section \<open>Properties of the browser pane\<close>

lemma decimal_404: "decimal 404 = ''404''"
  by (simp add: decimal.simps)

lemma pane_run_snoc: "pane_run st (evs @ [e]) = pane_step (pane_run st evs) e"
  by (simp add: pane_run_def)

lemma banners_eq: "banners st = banner (errorMessage st)"
  by (simp add: banners_def WebViewComponent_render_def banner_def split: option.splits)

lemma browser_views_eq: "browser_views st = [WebView (frame (engineView st))]"
  by (simp add: browser_views_def WebViewComponent_render_def banner_def split: option.splits)

text \<open>
  C7. After any sequence of pane events that ends in a load error, the only banner is
  \<open>"Load Error: " + description\<close>; after any sequence that ends in an HTTP error, the
  only banner is \<open>"HTTP Error: " + statusCode\<close>: the latest event wins and nothing of the
  earlier ones is kept. After every sequence the render holds exactly one \<open>WebView\<close>
  element, so the browser view stays mounted.
\<close>

theorem banner_last_write_wins:
  "banners (pane_run st (evs @ [OnError errorName description]))
     = [ErrorBanner (''Load Error: '' @ description)]
   \<and> banners (pane_run st (evs @ [OnHttpError statusCode]))
     = [ErrorBanner (''HTTP Error: '' @ decimal statusCode)]
   \<and> length (browser_views (pane_run st evs)) = 1"
  by (simp add: pane_run_snoc banners_eq browser_views_eq banner_def
      handleLoadError_def onHttpError_def)

text \<open>
  C8, as stated, fails: the load error that makes the engine show the error text has
  also called \<open>onError\<close>, so the banner \<open>"Load Error: " + description\<close> is rendered at the
  same time, and the \<open>WebView\<close> element stays in the tree (the error view is drawn inside
  it).
\<close>

theorem render_error_comes_with_banner:
  "WebViewComponent_render
     (pane_run WebViewComponent_init [OnError ''timeout'' ''net::ERR_CONNECTION_REFUSED''])
     = [WebView (ErrorContainer ''WebView Error: timeout''),
        ErrorBanner ''Load Error: net::ERR_CONNECTION_REFUSED'']
   \<and> banners
       (pane_run WebViewComponent_init [OnError ''timeout'' ''net::ERR_CONNECTION_REFUSED''])
     \<noteq> []"
  by (simp add: pane_run_def WebViewComponent_init_def handleLoadError_def banners_def
      WebViewComponent_render_def frame_def renderError_def banner_def)

text \<open>
  C8, amended. When the engine reports an error named \<open>errorName\<close>, which it does as part
  of a load error with some \<open>description\<close>, then in every state the frame of the \<open>WebView\<close>
  element shows the text \<open>"WebView Error: " + errorName\<close> in place of the page, with
  nothing to press, and the one banner \<open>"Load Error: " + description\<close> is rendered next to
  it; the \<open>WebView\<close> element itself stays in the tree.
\<close>

theorem render_error_replaces_frame:
  "WebViewComponent_render (pane_step st (OnError errorName description))
     = [WebView (ErrorContainer (''WebView Error: '' @ errorName)),
        ErrorBanner (''Load Error: '' @ description)]"
  by (simp add: WebViewComponent_render_def frame_def renderError_def banner_def
      handleLoadError_def)


section \<open>Properties of the onboarding screen\<close>

subsection \<open>Running events, and what each event leaves unchanged\<close>

lemma run_Nil: "SplashScreen_run s [] = s"
  by (simp add: SplashScreen_run_def)

lemma run_Cons: "SplashScreen_run s (e # evs) = SplashScreen_run (SplashScreen_step s e) evs"
  by (simp add: SplashScreen_run_def)

lemma run_append: "SplashScreen_run s (xs @ ys) = SplashScreen_run (SplashScreen_run s xs) ys"
  by (simp add: SplashScreen_run_def)

lemma App_run_Nil: "App_run a [] = a"
  by (simp add: App_run_def)

lemma App_run_Cons: "App_run a (e # evs) = App_run (App_step a e) evs"
  by (simp add: App_run_def)

lemmas splash_defs =
  SplashScreen_mount_def promise_settles_def after_getItem_def after_setItem_def
  getItem_def setItem_def truthy_def catch_block_def onDone_def onDone_at_def
  setTimeout_onDone_def setIsFirstTime_def time_passes_def

lemmas eval_defs =
  splash_defs press_def SplashScreen_render_def FAQs_def handleNextFAQ_def animation_ends_def
  start_callback_def setCurrentFAQ_def unmount_def

lemmas store_defs = first_run_store_def returning_store_def

lemma fire_fields:
  "pc (fire xs s) = pc s"
  "isFirstTime (fire xs s) = isFirstTime s"
  "mounted (fire xs s) = mounted s"
  "timers (fire xs s) = timers s"
  "clock (fire xs s) = clock s"
  "currentFAQ (fire xs s) = currentFAQ s"
  "effectCleanup (fire xs s) = effectCleanup s"
  by (induction xs s rule: fire.induct; simp add: onDone_at_def)+

lemma fire_doneCalls:
  "doneCalls (fire xs s)
     = doneCalls s @ map (\<lambda>(i, d). \<lparr>calledAt = d, mountedThen = mounted s\<rparr>) xs"
  by (induction xs s rule: fire.induct) (simp_all add: onDone_at_def)

lemma time_passes_fields:
  "pc (time_passes n s) = pc s"
  "isFirstTime (time_passes n s) = isFirstTime s"
  "mounted (time_passes n s) = mounted s"
  "currentFAQ (time_passes n s) = currentFAQ s"
  "effectCleanup (time_passes n s) = effectCleanup s"
  "clock (time_passes n s) = clock s + n"
  "timers (time_passes n s) = filter (\<lambda>(i, d). \<not> d \<le> clock s + n) (timers s)"
  "doneCalls (time_passes n s)
     = doneCalls s @ map (\<lambda>(i, d). \<lparr>calledAt = d, mountedThen = mounted s\<rparr>)
         (filter (\<lambda>(i, d). d \<le> clock s + n) (timers s))"
  by (simp_all add: time_passes_def Let_def fire_fields fire_doneCalls)

lemma unmount_fields:
  "pc (unmount s) = pc s"
  "isFirstTime (unmount s) = isFirstTime s"
  "mounted (unmount s) = False"
  "doneCalls (unmount s) = doneCalls s"
  "currentFAQ (unmount s) = currentFAQ s"
  "clock (unmount s) = clock s"
  by (simp_all add: unmount_def clearTimeout_def split: option.splits cleanup.splits)

lemma start_callback_fields:
  "pc (start_callback a s) = pc s"
  "mounted (start_callback a s) = mounted s"
  "isFirstTime (start_callback a s) = isFirstTime s"
  "timers (start_callback a s) = timers s"
  "doneCalls (start_callback a s) = doneCalls s"
  "clock (start_callback a s) = clock s"
  "effectCleanup (start_callback a s) = effectCleanup s"
  "running (start_callback a s) = running s"
  by (simp_all add: start_callback_def setCurrentFAQ_def)

lemma stop_runs_fields:
  "pc (stop_runs xs s) = pc s"
  "mounted (stop_runs xs s) = mounted s"
  "isFirstTime (stop_runs xs s) = isFirstTime s"
  "timers (stop_runs xs s) = timers s"
  "doneCalls (stop_runs xs s) = doneCalls s"
  "clock (stop_runs xs s) = clock s"
  "effectCleanup (stop_runs xs s) = effectCleanup s"
  "running (stop_runs xs s) = running s"
  by (induction xs s rule: stop_runs.induct; simp add: start_callback_fields)+

lemma animation_ends_fields:
  "pc (animation_ends i s) = pc s"
  "mounted (animation_ends i s) = mounted s"
  "isFirstTime (animation_ends i s) = isFirstTime s"
  "timers (animation_ends i s) = timers s"
  "doneCalls (animation_ends i s) = doneCalls s"
  "clock (animation_ends i s) = clock s"
  "effectCleanup (animation_ends i s) = effectCleanup s"
  by (simp_all add: animation_ends_def Let_def start_callback_fields split: list.splits)

lemma press_fields:
  "pc (press s) = pc s"
  "mounted (press s) = mounted s"
  "isFirstTime (press s) = isFirstTime s"
  "timers (press s) = timers s"
  "clock (press s) = clock s"
  "effectCleanup (press s) = effectCleanup s"
  by (simp_all add: press_def handleNextFAQ_def Let_def stop_runs_fields onDone_def
      onDone_at_def split: view.splits handler.splits)

lemma press_doneCalls:
  "doneCalls (press s) =
     (if mounted s \<and> isFirstTime s = Some True \<and> currentFAQ s = 2
      then doneCalls s @ [\<lparr>calledAt = clock s, mountedThen = True\<rparr>] else doneCalls s)"
  by (auto simp: press_def handleNextFAQ_def Let_def stop_runs_fields onDone_def onDone_at_def
      SplashScreen_render_def FAQs_def
      split: view.splits handler.splits option.splits bool.splits if_splits)

lemma promise_settles_fields:
  "mounted (promise_settles s) = mounted s"
  "effectCleanup (promise_settles s) = effectCleanup s"
  by (simp_all add: promise_settles_def after_getItem_def after_setItem_def catch_block_def
      onDone_def onDone_at_def setTimeout_onDone_def setIsFirstTime_def getItem_def setItem_def
      split: checkFirstTime_pc.splits)

lemma promise_settles_doneCalls:
  "length (doneCalls s) \<le> length (doneCalls (promise_settles s))"
  by (simp add: promise_settles_def after_getItem_def after_setItem_def catch_block_def
      onDone_def onDone_at_def setTimeout_onDone_def setIsFirstTime_def getItem_def setItem_def
      split: checkFirstTime_pc.splits)

lemma step_mounted:
  assumes "e \<noteq> Unmount"
  shows "mounted (SplashScreen_step s e) = mounted s"
  using assms
  by (cases e) (simp_all add: promise_settles_fields time_passes_fields press_fields
      animation_ends_fields)

lemma step_doneCalls:
  "length (doneCalls s) \<le> length (doneCalls (SplashScreen_step s e))"
  by (cases e) (simp_all add: promise_settles_doneCalls time_passes_fields press_doneCalls
      animation_ends_fields unmount_fields)

subsection \<open>First activation\<close>

text \<open>
  C3. With no \<open>hasVisited\<close> in the store and a store that accepts the write, once the
  read and the write have settled the store holds \<open>hasVisited = "true"\<close>, \<open>isFirstTime\<close> is
  \<open>true\<close>, and the screen renders the carousel at index 0: the first entry, the first dot
  active, the button labelled \<open>Next\<close>.
\<close>

theorem first_visit_enters_carousel:
  assumes "\<not> getItemRejects store" and "\<not> setItemRejects store"
    and "items store ''hasVisited'' = None"
  shows "items (storage (SplashScreen_run (SplashScreen_mount store t) [PromiseSettles, PromiseSettles]))
           ''hasVisited'' = Some ''true''
    \<and> isFirstTime (SplashScreen_run (SplashScreen_mount store t) [PromiseSettles, PromiseSettles]) = Some True
    \<and> currentFAQ (SplashScreen_run (SplashScreen_mount store t) [PromiseSettles, PromiseSettles]) = 0
    \<and> SplashScreen_render (SplashScreen_run (SplashScreen_mount store t) [PromiseSettles, PromiseSettles])
        = Carousel (FAQs ! 0) [True, False, False] ''Next'' (HandleNextFAQ 0 0)"
  using assms
  by (simp add: run_Cons run_Nil splash_defs SplashScreen_render_def FAQs_def upt_rec)

theorem first_visit_enters_carousel_witness:
  "\<not> getItemRejects first_run_store \<and> \<not> setItemRejects first_run_store
   \<and> items first_run_store ''hasVisited'' = None
   \<and> items (storage (SplashScreen_run (SplashScreen_mount first_run_store 0)
         [PromiseSettles, PromiseSettles])) ''hasVisited'' = Some ''true''
   \<and> SplashScreen_render (SplashScreen_run (SplashScreen_mount first_run_store 0)
         [PromiseSettles, PromiseSettles])
       = Carousel \<lparr>question = ''What is AliComms?'',
                    answer = ''Is a modern interactive e-commerce platform.''\<rparr>
           [True, False, False] ''Next'' (HandleNextFAQ 0 0)"
  using first_visit_enters_carousel [where store = first_run_store and t = 0]
  by (simp add: first_run_store_def FAQs_def)

text \<open>
  C6. When the read of \<open>hasVisited\<close> rejects, at whatever time \<open>t + d\<close> it does so, the
  \<open>catch\<close> block logs the error and calls \<open>onDone\<close> in that same step, while the screen is
  mounted; no timer is set and \<open>checkFirstTime\<close> has returned.
\<close>

theorem read_failure_fails_open:
  assumes "getItemRejects store"
  shows "doneCalls (SplashScreen_run (SplashScreen_mount store t) [TimePasses d, PromiseSettles])
           = [\<lparr>calledAt = t + d, mountedThen = True\<rparr>]
    \<and> errors (SplashScreen_run (SplashScreen_mount store t) [TimePasses d, PromiseSettles])
           = [''Error checking first-time visit:'']
    \<and> timers (SplashScreen_run (SplashScreen_mount store t) [TimePasses d, PromiseSettles]) = []
    \<and> pc (SplashScreen_run (SplashScreen_mount store t) [TimePasses d, PromiseSettles]) = Settled"
  using assms
  by (simp add: run_Cons run_Nil splash_defs)

theorem read_failure_fails_open_witness:
  "getItemRejects (first_run_store\<lparr>getItemRejects := True\<rparr>)
   \<and> doneCalls (SplashScreen_run (SplashScreen_mount (first_run_store\<lparr>getItemRejects := True\<rparr>) 0)
        [TimePasses 40, PromiseSettles]) = [\<lparr>calledAt = 40, mountedThen = True\<rparr>]"
  using read_failure_fails_open [where store = "first_run_store\<lparr>getItemRejects := True\<rparr>"
      and t = 0 and d = 40]
  by simp

subsection \<open>Once \<open>checkFirstTime\<close> has returned without \<open>setIsFirstTime\<close>, the screen stays on the loading view\<close>

lemma settled_None_step:
  assumes "pc s = Settled" and "isFirstTime s = None"
  shows "pc (SplashScreen_step s e) = Settled \<and> isFirstTime (SplashScreen_step s e) = None"
  using assms
  by (cases e) (simp_all add: promise_settles_def time_passes_fields press_fields
      animation_ends_fields unmount_fields)

lemma settled_None_run:
  assumes "pc s = Settled" and "isFirstTime s = None"
  shows "pc (SplashScreen_run s evs) = Settled \<and> isFirstTime (SplashScreen_run s evs) = None"
  using assms
  by (induction evs arbitrary: s) (simp_all add: run_Nil run_Cons settled_None_step)

text \<open>
  C10. When the read returns \<open>null\<close> and the write of \<open>hasVisited = "true"\<close> rejects, the
  \<open>catch\<close> block logs the error and calls \<open>onDone\<close> in the step in which the write
  rejects; \<open>isFirstTime\<close> is never set, so whatever events follow, the screen renders the
  loading view and never the carousel.
\<close>

theorem write_failure_fails_open:
  assumes "\<not> getItemRejects store" and "items store ''hasVisited'' = None"
    and "setItemRejects store"
  shows "doneCalls (SplashScreen_run (SplashScreen_mount store t) [PromiseSettles, PromiseSettles])
           = [\<lparr>calledAt = t, mountedThen = True\<rparr>]
    \<and> errors (SplashScreen_run (SplashScreen_mount store t) [PromiseSettles, PromiseSettles])
           = [''Error checking first-time visit:'']
    \<and> SplashScreen_render
         (SplashScreen_run (SplashScreen_mount store t) (PromiseSettles # PromiseSettles # evs))
           = LoadingContainer"
proof -
  let ?s = "SplashScreen_run (SplashScreen_mount store t) [PromiseSettles, PromiseSettles]"
  have calls: "doneCalls ?s = [\<lparr>calledAt = t, mountedThen = True\<rparr>]"
    and logged: "errors ?s = [''Error checking first-time visit:'']"
    and settled: "pc ?s = Settled" and unknown: "isFirstTime ?s = None"
    using assms by (simp_all add: run_Cons run_Nil splash_defs)
  have "SplashScreen_run (SplashScreen_mount store t) (PromiseSettles # PromiseSettles # evs)
          = SplashScreen_run ?s evs"
    by (simp add: run_Cons run_Nil)
  moreover have "isFirstTime (SplashScreen_run ?s evs) = None"
    using settled_None_run [OF settled unknown] by simp
  ultimately show ?thesis
    using calls logged by (simp add: SplashScreen_render_def)
qed

theorem write_failure_fails_open_witness:
  "\<not> getItemRejects (first_run_store\<lparr>setItemRejects := True\<rparr>)
   \<and> items (first_run_store\<lparr>setItemRejects := True\<rparr>) ''hasVisited'' = None
   \<and> setItemRejects (first_run_store\<lparr>setItemRejects := True\<rparr>)
   \<and> doneCalls (SplashScreen_run (SplashScreen_mount (first_run_store\<lparr>setItemRejects := True\<rparr>) 0)
        [PromiseSettles, PromiseSettles]) = [\<lparr>calledAt = 0, mountedThen = True\<rparr>]
   \<and> SplashScreen_render
        (SplashScreen_run (SplashScreen_mount (first_run_store\<lparr>setItemRejects := True\<rparr>) 0)
          [PromiseSettles, PromiseSettles, Press, TimePasses 5000]) = LoadingContainer"
  using write_failure_fails_open [where store = "first_run_store\<lparr>setItemRejects := True\<rparr>"
      and t = 0 and evs = "[Press, TimePasses 5000]"]
  by (simp add: first_run_store_def)

subsection \<open>The timer path\<close>

lemma timer_path_time_passes:
  assumes "timer_path D s"
  shows "timer_path D (time_passes n s)"
proof (cases "clock s < D")
  case True
  with assms obtain i where t: "timers s = [(i, D)]" and d: "doneCalls s = []"
    by (auto simp: timer_path_def)
  from assms have rest: "pc s = Settled" "isFirstTime s = None" "mounted s"
    by (simp_all add: timer_path_def)
  show ?thesis
    using t d rest by (simp add: timer_path_def time_passes_fields)
next
  case False
  with assms have "timers s = []" "doneCalls s = [\<lparr>calledAt = D, mountedThen = True\<rparr>]"
    "pc s = Settled" "isFirstTime s = None" "mounted s"
    by (simp_all add: timer_path_def)
  with False show ?thesis
    by (simp add: timer_path_def time_passes_fields)
qed

lemma timer_path_press:
  assumes "timer_path D s"
  shows "timer_path D (press s)"
  using assms by (simp add: timer_path_def press_fields press_doneCalls)

lemma timer_path_animation_ends:
  assumes "timer_path D s"
  shows "timer_path D (animation_ends i s)"
  using assms by (simp add: timer_path_def animation_ends_fields)

lemma timer_path_promise_settles:
  assumes "timer_path D s"
  shows "timer_path D (promise_settles s)"
  using assms by (simp add: timer_path_def promise_settles_def)

lemma timer_path_step:
  assumes "timer_path D s" and "e \<noteq> Unmount"
  shows "timer_path D (SplashScreen_step s e)"
  using assms
  by (cases e) (simp_all add: timer_path_time_passes timer_path_press
      timer_path_animation_ends timer_path_promise_settles)

lemma timer_path_run:
  assumes "timer_path D s" and "Unmount \<notin> set evs"
  shows "timer_path D (SplashScreen_run s evs)"
  using assms
  by (induction evs arbitrary: s) (auto simp: run_Nil run_Cons timer_path_step)

text \<open>
  C4. With \<open>hasVisited = "true"\<close> in the store, let the read resolve at time \<open>t + d\<close>. Over
  every sequence of later events that leaves the screen mounted, \<open>onDone\<close> has not been
  called while the clock is before \<open>t + d + 3000\<close>, has been called exactly once, at
  \<open>t + d + 3000\<close>, from then on, and the screen renders the loading view throughout, never
  the carousel.
\<close>

theorem returning_user_auto_advance:
  assumes "\<not> getItemRejects store" and "items store ''hasVisited'' = Some ''true''"
    and "Unmount \<notin> set evs"
  shows "SplashScreen_render
           (SplashScreen_run (SplashScreen_mount store t) (TimePasses d # PromiseSettles # evs))
           = LoadingContainer
    \<and> doneCalls (SplashScreen_run (SplashScreen_mount store t) (TimePasses d # PromiseSettles # evs))
        = (if clock (SplashScreen_run (SplashScreen_mount store t)
                       (TimePasses d # PromiseSettles # evs)) < t + d + 3000
           then [] else [\<lparr>calledAt = t + d + 3000, mountedThen = True\<rparr>])"
proof -
  let ?s = "SplashScreen_run (SplashScreen_mount store t) [TimePasses d, PromiseSettles]"
  have "timer_path (t + d + 3000) ?s"
    using assms(1,2) by (simp add: timer_path_def run_Cons run_Nil splash_defs)
  then have "timer_path (t + d + 3000) (SplashScreen_run ?s evs)"
    using assms(3) by (rule timer_path_run)
  moreover have "SplashScreen_run (SplashScreen_mount store t) (TimePasses d # PromiseSettles # evs)
          = SplashScreen_run ?s evs"
    by (simp add: run_Cons run_Nil)
  ultimately show ?thesis
    by (auto simp: timer_path_def SplashScreen_render_def)
qed

theorem returning_user_auto_advance_witness:
  "\<not> getItemRejects returning_store
   \<and> items returning_store ''hasVisited'' = Some ''true''
   \<and> Unmount \<notin> set [TimePasses 2999, Press, TimePasses 1]
   \<and> doneCalls (SplashScreen_run (SplashScreen_mount returning_store 0)
        [TimePasses 0, PromiseSettles, TimePasses 2999, Press, TimePasses 1])
       = [\<lparr>calledAt = 3000, mountedThen = True\<rparr>]"
proof -
  have h1: "\<not> getItemRejects returning_store"
    and h2: "items returning_store ''hasVisited'' = Some ''true''"
    by (simp_all add: returning_store_def)
  have h3: "Unmount \<notin> set [TimePasses 2999, Press, TimePasses 1]"
    by simp
  have late: "clock (SplashScreen_run (SplashScreen_mount returning_store 0)
        [TimePasses 0, PromiseSettles, TimePasses 2999, Press, TimePasses 1]) = 3000"
    by (simp add: run_Cons run_Nil eval_defs Let_def returning_store_def)
  show ?thesis
    using returning_user_auto_advance [OF h1 h2 h3, of 0 0] h1 h2 late by simp
qed

subsection \<open>The action control\<close>

lemma stop_runs_noop:
  assumes "list_all (\<lambda>a. (captured a + 1) mod length FAQs = currentFAQ s) xs"
  shows "stop_runs xs s = s"
  using assms
  by (induction xs) (simp_all add: start_callback_def setCurrentFAQ_def)

lemma stop_runs_advance:
  assumes "mounted s" and "currentFAQ s < 2" and "xs \<noteq> []"
    and "list_all (\<lambda>a. captured a = currentFAQ s) xs"
  shows "stop_runs xs s = s\<lparr>currentFAQ := currentFAQ s + 1, fadeAnim := Suc (fadeAnim s)\<rparr>"
proof (cases xs)
  case Nil
  with assms(3) show ?thesis by simp
next
  case (Cons a rest)
  let ?s1 = "s\<lparr>currentFAQ := currentFAQ s + 1, fadeAnim := Suc (fadeAnim s)\<rparr>"
  from Cons assms(4) have a: "captured a = currentFAQ s"
    and rest: "list_all (\<lambda>a. captured a = currentFAQ s) rest"
    by simp_all
  have first: "start_callback a s = ?s1"
    using assms(1,2) a by (simp add: start_callback_def setCurrentFAQ_def FAQs_def)
  have "list_all (\<lambda>a. (captured a + 1) mod length FAQs = currentFAQ ?s1) rest"
    using rest assms(2) by (simp add: FAQs_def list_all_iff)
  then have "stop_runs rest ?s1 = ?s1"
    by (rule stop_runs_noop)
  with Cons first show ?thesis
    by simp
qed

lemma filter_others:
  assumes "filter P xs = []"
  shows "filter (\<lambda>a. \<not> P a) xs = xs"
  using assms by (induction xs) (simp_all split: if_splits)

lemma press_idle:
  assumes "mounted s" and "isFirstTime s = Some True" and "currentFAQ s < 2"
    and "filter (\<lambda>a. animatedValue a = fadeAnim s) (running s) = []"
  shows "press s = s\<lparr>running := running s @
           [\<lparr>steps = [Timing 0 300, Timing 1 300], captured = currentFAQ s,
             animatedValue = fadeAnim s\<rparr>]\<rparr>"
  using assms filter_others [OF assms(4)]
  by (simp add: press_def SplashScreen_render_def FAQs_def handleNextFAQ_def)

lemma press_in_flight:
  assumes "mounted s" and "isFirstTime s = Some True" and "currentFAQ s < 2"
    and "filter (\<lambda>a. animatedValue a = fadeAnim s) (running s) \<noteq> []"
    and "list_all (\<lambda>a. captured a = currentFAQ s)
           (filter (\<lambda>a. animatedValue a = fadeAnim s) (running s))"
  shows "press s = s\<lparr>currentFAQ := currentFAQ s + 1, fadeAnim := Suc (fadeAnim s),
           running := filter (\<lambda>a. animatedValue a \<noteq> fadeAnim s) (running s) @
             [\<lparr>steps = [Timing 0 300, Timing 1 300], captured = currentFAQ s,
               animatedValue = fadeAnim s\<rparr>]\<rparr>"
  using assms(1,2,3) stop_runs_advance [OF assms(1) assms(3) assms(4) assms(5)]
  by (simp add: press_def SplashScreen_render_def FAQs_def handleNextFAQ_def)

lemma press_last:
  assumes "mounted s" and "isFirstTime s = Some True" and "currentFAQ s = 2"
  shows "press s = s\<lparr>doneCalls := doneCalls s @ [\<lparr>calledAt = clock s, mountedThen = True\<rparr>]\<rparr>"
  using assms
  by (simp add: press_def SplashScreen_render_def FAQs_def onDone_def onDone_at_def)

lemma sequence_completes:
  assumes "mounted s" and "currentFAQ s < 2"
  shows "SplashScreen_run
           (s\<lparr>running := running s @
               [\<lparr>steps = [Timing 0 300, Timing 1 300], captured = currentFAQ s,
                 animatedValue = fadeAnim s\<rparr>]\<rparr>)
           [AnimationEnds (length (running s))]
         = s\<lparr>running := running s @
               [\<lparr>steps = [Timing 1 300], captured = currentFAQ s, animatedValue = fadeAnim s\<rparr>]\<rparr>"
    and "SplashScreen_run
           (s\<lparr>running := running s @
               [\<lparr>steps = [Timing 0 300, Timing 1 300], captured = currentFAQ s,
                 animatedValue = fadeAnim s\<rparr>]\<rparr>)
           [AnimationEnds (length (running s)), AnimationEnds (length (running s))]
         = s\<lparr>currentFAQ := currentFAQ s + 1, fadeAnim := Suc (fadeAnim s)\<rparr>"
  using assms
  by (simp_all add: run_Cons run_Nil animation_ends_def start_callback_def setCurrentFAQ_def
      FAQs_def nth_append)

text \<open>In every state the screen can reach, the runs a press would stop closed over the
  present index.\<close>

lemma closures_ok_same:
  assumes "running s' = running s" and "fadeAnim s' = fadeAnim s"
    and "currentFAQ s' = currentFAQ s"
  shows "closures_ok s' = closures_ok s"
  using assms by (simp add: closures_ok_def)

lemma fire_carousel:
  "running (fire xs s) = running s"
  "fadeAnim (fire xs s) = fadeAnim s"
  by (induction xs s rule: fire.induct; simp add: onDone_at_def)+

lemma closures_ok_promise_settles:
  "closures_ok (promise_settles s) = closures_ok s"
  by (rule closures_ok_same)
    (simp_all add: promise_settles_def after_getItem_def after_setItem_def catch_block_def
      onDone_def onDone_at_def setTimeout_onDone_def setIsFirstTime_def getItem_def setItem_def
      split: checkFirstTime_pc.splits)

lemma closures_ok_time_passes:
  "closures_ok (time_passes n s) = closures_ok s"
  by (rule closures_ok_same)
    (simp_all add: time_passes_def Let_def fire_carousel fire_fields)

lemma closures_ok_unmount:
  "closures_ok (unmount s) = closures_ok s"
  by (rule closures_ok_same)
    (simp_all add: unmount_def clearTimeout_def split: option.splits cleanup.splits)

lemma start_callback_progress:
  "fadeAnim s < fadeAnim (start_callback a s)
   \<or> fadeAnim (start_callback a s) = fadeAnim s
     \<and> currentFAQ (start_callback a s) = currentFAQ s"
  by (simp add: start_callback_def setCurrentFAQ_def)

lemma stop_runs_progress:
  "fadeAnim s < fadeAnim (stop_runs xs s)
   \<or> fadeAnim (stop_runs xs s) = fadeAnim s \<and> currentFAQ (stop_runs xs s) = currentFAQ s"
proof (induction xs s rule: stop_runs.induct)
  case (1 s)
  show ?case by simp
next
  case (2 a rest s)
  from start_callback_progress [of s a] "2.IH" show ?case
    by auto
qed

lemma closures_ok_press:
  assumes "closures_ok s"
  shows "closures_ok (press s)"
proof (cases "mounted s \<and> isFirstTime s = Some True \<and> currentFAQ s < 2")
  case False
  then have "closures_ok (press s) = closures_ok s"
    by (intro closures_ok_same)
      (auto simp: press_def SplashScreen_render_def FAQs_def onDone_def onDone_at_def
        split: option.splits bool.splits)
  with assms show ?thesis by simp
next
  case True
  let ?v = "fadeAnim s"
  let ?s' = "stop_runs (filter (\<lambda>a. animatedValue a = ?v) (running s)) s"
  have p: "press s = ?s'\<lparr>running := filter (\<lambda>a. animatedValue a \<noteq> ?v) (running s) @
      [\<lparr>steps = [Timing 0 300, Timing 1 300], captured = currentFAQ s, animatedValue = ?v\<rparr>]\<rparr>"
    using True by (simp add: press_def SplashScreen_render_def FAQs_def handleNextFAQ_def)
  have older: "\<forall>a \<in> set (running s). animatedValue a \<noteq> ?v \<longrightarrow> animatedValue a < ?v"
    using assms by (auto simp: closures_ok_def list_all_iff)
  from stop_runs_progress [of s "filter (\<lambda>a. animatedValue a = ?v) (running s)"] older
  show ?thesis
    by (auto simp: p closures_ok_def list_all_iff)
qed

lemma closures_ok_start_callback:
  assumes "closures_ok s"
  shows "closures_ok (start_callback a s)"
  using assms
  by (auto simp: closures_ok_def list_all_iff start_callback_def setCurrentFAQ_def)

lemma closures_ok_animation_ends:
  assumes "closures_ok s"
  shows "closures_ok (animation_ends i s)"
proof (cases "length (running s) \<le> i")
  case True
  with assms show ?thesis by (simp add: animation_ends_def)
next
  case False
  let ?a = "running s ! i"
  from False have mem: "?a \<in> set (running s)" by simp
  show ?thesis
  proof (cases "\<exists>x y rest. steps ?a = x # y # rest")
    case True
    then obtain x y rest where st: "steps ?a = x # y # rest" by blast
    have "animation_ends i s = s\<lparr>running := (running s)[i := ?a\<lparr>steps := y # rest\<rparr>]\<rparr>"
      using False st by (simp add: animation_ends_def)
    moreover have "\<forall>b \<in> set ((running s)[i := ?a\<lparr>steps := y # rest\<rparr>]).
        animatedValue b < fadeAnim s \<or> animatedValue b = fadeAnim s \<and> captured b = currentFAQ s"
    proof
      fix b assume "b \<in> set ((running s)[i := ?a\<lparr>steps := y # rest\<rparr>])"
      then have "b \<in> insert (?a\<lparr>steps := y # rest\<rparr>) (set (running s))"
        using set_update_subset_insert by fastforce
      with assms mem show "animatedValue b < fadeAnim s
          \<or> animatedValue b = fadeAnim s \<and> captured b = currentFAQ s"
        by (auto simp: closures_ok_def list_all_iff)
    qed
    ultimately show ?thesis
      by (simp add: closures_ok_def list_all_iff)
  next
    case no: False
    let ?r = "s\<lparr>running := take i (running s) @ drop (Suc i) (running s)\<rparr>"
    have "animation_ends i s = start_callback ?a ?r"
      using False no by (auto simp: animation_ends_def Let_def split: list.splits)
    moreover have "closures_ok ?r"
      using assms by (auto simp: closures_ok_def list_all_iff dest: in_set_takeD in_set_dropD)
    ultimately show ?thesis
      by (simp add: closures_ok_start_callback)
  qed
qed

lemma closures_ok_step:
  assumes "closures_ok s"
  shows "closures_ok (SplashScreen_step s e)"
  using assms
  by (cases e) (simp_all add: closures_ok_promise_settles closures_ok_time_passes
      closures_ok_press closures_ok_animation_ends closures_ok_unmount)

lemma closures_ok_run:
  assumes "closures_ok s"
  shows "closures_ok (SplashScreen_run s evs)"
  using assms
  by (induction evs arbitrary: s) (simp_all add: run_Nil run_Cons closures_ok_step)

lemma stopped_runs_closed_over_current_index:
  "list_all (\<lambda>a. captured a = currentFAQ (SplashScreen_run (SplashScreen_mount store t) evs))
     (filter (\<lambda>a. animatedValue a = fadeAnim (SplashScreen_run (SplashScreen_mount store t) evs))
        (running (SplashScreen_run (SplashScreen_mount store t) evs)))"
proof -
  have "closures_ok (SplashScreen_mount store t)"
    by (simp add: closures_ok_def SplashScreen_mount_def)
  then have "closures_ok (SplashScreen_run (SplashScreen_mount store t) evs)"
    by (rule closures_ok_run)
  then show ?thesis
    by (auto simp: closures_ok_def list_all_iff)
qed

text \<open>
  C5, as stated, fails for a press while a sequence started at the same index is still
  running. After two presses at index 0, with no timing finished, \<open>currentFAQ\<close> is already
  1: the second press stopped the first sequence, whose callback ran at once. The second
  sequence is still at its fade-out, and when it has completed the index is still 1, so
  the two presses advance it once.
\<close>

theorem second_press_advances_at_once:
  "currentFAQ (SplashScreen_run (SplashScreen_mount first_run_store 0)
      [PromiseSettles, PromiseSettles, Press]) = 0
   \<and> currentFAQ (SplashScreen_run (SplashScreen_mount first_run_store 0)
      [PromiseSettles, PromiseSettles, Press, Press]) = 1
   \<and> running (SplashScreen_run (SplashScreen_mount first_run_store 0)
      [PromiseSettles, PromiseSettles, Press, Press])
      = [\<lparr>steps = [Timing 0 300, Timing 1 300], captured = 0, animatedValue = 0\<rparr>]
   \<and> currentFAQ (SplashScreen_run (SplashScreen_mount first_run_store 0)
      [PromiseSettles, PromiseSettles, Press, Press, AnimationEnds 0, AnimationEnds 0]) = 1"
  by (simp add: run_Cons run_Nil eval_defs store_defs)

text \<open>
  C5, amended. On the mounted carousel at an index before the last one:
  pressed while no sequence is running on the \<open>fadeAnim\<close> of \<open>handleNextFAQ\<close>, the control
  starts the sequence fade to 0 (300 ms), fade to 1 (300 ms) and changes nothing else; when
  the first timing ends the second one runs, and when that ends \<open>currentFAQ\<close> is advanced
  by one;
  pressed while such a sequence is running (it closed over the present index, as in every
  reachable state), the control stops it, \<open>currentFAQ\<close> is advanced by one at once, and a
  new sequence starts.
  Pressed at the last index (2), the control calls \<open>onDone\<close> and changes nothing else: no
  sequence is started and the index stays.
\<close>

theorem action_control:
  assumes "mounted s" and "isFirstTime s = Some True"
  shows "(currentFAQ s < 2 \<and> filter (\<lambda>a. animatedValue a = fadeAnim s) (running s) = [] \<longrightarrow>
            press s = s\<lparr>running := running s @
                         [\<lparr>steps = [Timing 0 300, Timing 1 300], captured = currentFAQ s,
                           animatedValue = fadeAnim s\<rparr>]\<rparr>
          \<and> SplashScreen_run s [Press, AnimationEnds (length (running s))]
              = s\<lparr>running := running s @
                    [\<lparr>steps = [Timing 1 300], captured = currentFAQ s,
                      animatedValue = fadeAnim s\<rparr>]\<rparr>
          \<and> SplashScreen_run s
               [Press, AnimationEnds (length (running s)), AnimationEnds (length (running s))]
              = s\<lparr>currentFAQ := (currentFAQ s + 1) mod length FAQs, fadeAnim := Suc (fadeAnim s)\<rparr>
          \<and> (currentFAQ s + 1) mod length FAQs = currentFAQ s + 1)
       \<and> (currentFAQ s < 2 \<and> filter (\<lambda>a. animatedValue a = fadeAnim s) (running s) \<noteq> []
            \<and> list_all (\<lambda>a. captured a = currentFAQ s)
                 (filter (\<lambda>a. animatedValue a = fadeAnim s) (running s)) \<longrightarrow>
            press s = s\<lparr>currentFAQ := (currentFAQ s + 1) mod length FAQs,
                        fadeAnim := Suc (fadeAnim s),
                        running := filter (\<lambda>a. animatedValue a \<noteq> fadeAnim s) (running s) @
                          [\<lparr>steps = [Timing 0 300, Timing 1 300], captured = currentFAQ s,
                            animatedValue = fadeAnim s\<rparr>]\<rparr>)
       \<and> (currentFAQ s = 2 \<longrightarrow>
            press s = s\<lparr>doneCalls := doneCalls s @ [\<lparr>calledAt = clock s, mountedThen = True\<rparr>]\<rparr>)"
proof (intro conjI impI)
  assume idle: "currentFAQ s < 2 \<and> filter (\<lambda>a. animatedValue a = fadeAnim s) (running s) = []"
  then have c: "currentFAQ s < 2"
    and none: "filter (\<lambda>a. animatedValue a = fadeAnim s) (running s) = []"
    by simp_all
  note p = press_idle [OF assms c none]
  show "press s = s\<lparr>running := running s @
                         [\<lparr>steps = [Timing 0 300, Timing 1 300], captured = currentFAQ s,
                           animatedValue = fadeAnim s\<rparr>]\<rparr>"
    by (rule p)
  show "SplashScreen_run s [Press, AnimationEnds (length (running s))]
              = s\<lparr>running := running s @
                    [\<lparr>steps = [Timing 1 300], captured = currentFAQ s,
                      animatedValue = fadeAnim s\<rparr>]\<rparr>"
    using sequence_completes(1) [OF assms(1) c] by (simp add: run_Cons p)
  show "SplashScreen_run s
               [Press, AnimationEnds (length (running s)), AnimationEnds (length (running s))]
              = s\<lparr>currentFAQ := (currentFAQ s + 1) mod length FAQs, fadeAnim := Suc (fadeAnim s)\<rparr>"
    using sequence_completes(2) [OF assms(1) c] c by (simp add: run_Cons p FAQs_def)
  show "(currentFAQ s + 1) mod length FAQs = currentFAQ s + 1"
    using c by (simp add: FAQs_def)
next
  assume busy: "currentFAQ s < 2 \<and> filter (\<lambda>a. animatedValue a = fadeAnim s) (running s) \<noteq> []
            \<and> list_all (\<lambda>a. captured a = currentFAQ s)
                 (filter (\<lambda>a. animatedValue a = fadeAnim s) (running s))"
  then have c: "currentFAQ s < 2"
    and some: "filter (\<lambda>a. animatedValue a = fadeAnim s) (running s) \<noteq> []"
    and same: "list_all (\<lambda>a. captured a = currentFAQ s)
                 (filter (\<lambda>a. animatedValue a = fadeAnim s) (running s))"
    by simp_all
  show "press s = s\<lparr>currentFAQ := (currentFAQ s + 1) mod length FAQs,
                        fadeAnim := Suc (fadeAnim s),
                        running := filter (\<lambda>a. animatedValue a \<noteq> fadeAnim s) (running s) @
                          [\<lparr>steps = [Timing 0 300, Timing 1 300], captured = currentFAQ s,
                            animatedValue = fadeAnim s\<rparr>]\<rparr>"
    using press_in_flight [OF assms c some same] c by (simp add: FAQs_def)
next
  assume "currentFAQ s = 2"
  with assms show "press s
      = s\<lparr>doneCalls := doneCalls s @ [\<lparr>calledAt = clock s, mountedThen = True\<rparr>]\<rparr>"
    by (rule press_last)
qed

theorem action_control_witness:
  "mounted (SplashScreen_run (SplashScreen_mount first_run_store 0) [PromiseSettles, PromiseSettles])
   \<and> isFirstTime (SplashScreen_run (SplashScreen_mount first_run_store 0)
        [PromiseSettles, PromiseSettles]) = Some True
   \<and> currentFAQ (SplashScreen_run (SplashScreen_mount first_run_store 0)
        [PromiseSettles, PromiseSettles]) < 2
   \<and> running (SplashScreen_run (SplashScreen_mount first_run_store 0)
        [PromiseSettles, PromiseSettles]) = []
   \<and> currentFAQ (SplashScreen_run (SplashScreen_mount first_run_store 0)
        [PromiseSettles, PromiseSettles, Press, AnimationEnds 0, AnimationEnds 0]) = 1
   \<and> running (SplashScreen_run (SplashScreen_mount first_run_store 0)
        [PromiseSettles, PromiseSettles, Press])
       = [\<lparr>steps = [Timing 0 300, Timing 1 300], captured = 0, animatedValue = 0\<rparr>]
   \<and> currentFAQ (SplashScreen_run (SplashScreen_mount first_run_store 0)
        [PromiseSettles, PromiseSettles, Press, Press]) = 1
   \<and> currentFAQ (SplashScreen_run (SplashScreen_mount first_run_store 0)
        [PromiseSettles, PromiseSettles, Press, AnimationEnds 0, AnimationEnds 0,
         Press, AnimationEnds 0, AnimationEnds 0]) = 2
   \<and> doneCalls (press (SplashScreen_run (SplashScreen_mount first_run_store 0)
        [PromiseSettles, PromiseSettles, Press, AnimationEnds 0, AnimationEnds 0,
         Press, AnimationEnds 0, AnimationEnds 0]))
       = [\<lparr>calledAt = 0, mountedThen = True\<rparr>]"
proof -
  let ?s = "SplashScreen_run (SplashScreen_mount first_run_store 0) [PromiseSettles, PromiseSettles]"
  let ?p = "SplashScreen_run (SplashScreen_mount first_run_store 0)
        [PromiseSettles, PromiseSettles, Press]"
  let ?u = "SplashScreen_run (SplashScreen_mount first_run_store 0)
        [PromiseSettles, PromiseSettles, Press, AnimationEnds 0, AnimationEnds 0,
         Press, AnimationEnds 0, AnimationEnds 0]"
  have m: "mounted ?s" and f: "isFirstTime ?s = Some True" and c: "currentFAQ ?s < 2"
    and r: "running ?s = []" and i: "currentFAQ ?s = 0"
    by (simp_all add: run_Cons run_Nil splash_defs first_run_store_def)
  have "SplashScreen_run ?s
          [Press, AnimationEnds (length (running ?s)), AnimationEnds (length (running ?s))]
        = ?s\<lparr>currentFAQ := (currentFAQ ?s + 1) mod length FAQs, fadeAnim := Suc (fadeAnim ?s)\<rparr>"
    using action_control [OF m f] c r by simp
  then have "currentFAQ (SplashScreen_run ?s [Press, AnimationEnds 0, AnimationEnds 0]) = 1"
    by (simp add: r i FAQs_def)
  then have first: "currentFAQ (SplashScreen_run (SplashScreen_mount first_run_store 0)
        [PromiseSettles, PromiseSettles, Press, AnimationEnds 0, AnimationEnds 0]) = 1"
    by (simp add: run_Cons run_Nil)
  have m1: "mounted ?p" and f1: "isFirstTime ?p = Some True" and c1: "currentFAQ ?p = 0"
    and v1: "fadeAnim ?p = 0"
    and r1: "running ?p = [\<lparr>steps = [Timing 0 300, Timing 1 300], captured = 0, animatedValue = 0\<rparr>]"
    by (simp_all add: run_Cons run_Nil eval_defs first_run_store_def)
  have "press ?p = ?p\<lparr>currentFAQ := (currentFAQ ?p + 1) mod length FAQs,
                        fadeAnim := Suc (fadeAnim ?p),
                        running := filter (\<lambda>a. animatedValue a \<noteq> fadeAnim ?p) (running ?p) @
                          [\<lparr>steps = [Timing 0 300, Timing 1 300], captured = currentFAQ ?p,
                            animatedValue = fadeAnim ?p\<rparr>]\<rparr>"
    using action_control [OF m1 f1] c1 v1 r1 by simp
  then have "currentFAQ (press ?p) = 1"
    by (simp add: c1 FAQs_def)
  then have second: "currentFAQ (SplashScreen_run (SplashScreen_mount first_run_store 0)
        [PromiseSettles, PromiseSettles, Press, Press]) = 1"
    by (simp add: run_Cons run_Nil)
  have m2: "mounted ?u" and f2: "isFirstTime ?u = Some True" and c2: "currentFAQ ?u = 2"
    and d2: "doneCalls ?u = []" and k2: "clock ?u = 0"
    by (simp_all add: run_Cons run_Nil eval_defs first_run_store_def)
  have "press ?u = ?u\<lparr>doneCalls := doneCalls ?u @ [\<lparr>calledAt = clock ?u, mountedThen = True\<rparr>]\<rparr>"
    using action_control [OF m2 f2] c2 by blast
  then have last: "doneCalls (press ?u) = [\<lparr>calledAt = 0, mountedThen = True\<rparr>]"
    by (simp add: d2 k2)
  show ?thesis
    using m f c r first r1 second c2 last by simp
qed

subsection \<open>The returning-user view\<close>

lemma never_false_step:
  assumes "isFirstTime s \<noteq> Some False"
  shows "isFirstTime (SplashScreen_step s e) \<noteq> Some False"
  using assms
  by (cases e) (auto simp: promise_settles_def after_getItem_def after_setItem_def
      catch_block_def onDone_def onDone_at_def setTimeout_onDone_def setIsFirstTime_def
      time_passes_fields press_fields animation_ends_fields unmount_fields
      split: checkFirstTime_pc.splits sum.splits prod.splits if_splits)

lemma never_false_run:
  assumes "isFirstTime s \<noteq> Some False"
  shows "isFirstTime (SplashScreen_run s evs) \<noteq> Some False"
  using assms
  by (induction evs arbitrary: s) (simp_all add: run_Nil run_Cons never_false_step)

text \<open>
  C9, evaluated on the code. For a store holding \<open>hasVisited = "true"\<close>, after the read
  has resolved and up to the moment before the timer fires, the screen renders the loading
  view with the activity indicator, not the view with the image \<open>loader.gif\<close> and
  \<open>Welcome Back!\<close>. That view needs \<open>isFirstTime = false\<close>, and no event on any store ever
  sets it: the source has no \<open>setIsFirstTime(false)\<close>.
\<close>

theorem returning_user_sees_loading_indicator:
  "SplashScreen_render (SplashScreen_run (SplashScreen_mount returning_store 0)
      [PromiseSettles]) = LoadingContainer
   \<and> SplashScreen_render (SplashScreen_run (SplashScreen_mount returning_store 0)
      [PromiseSettles, TimePasses 2999]) = LoadingContainer
   \<and> isFirstTime (SplashScreen_run (SplashScreen_mount store t) evs) \<noteq> Some False"
proof -
  have "isFirstTime (SplashScreen_mount store t) \<noteq> Some False"
    by (simp add: SplashScreen_mount_def)
  then have "isFirstTime (SplashScreen_run (SplashScreen_mount store t) evs) \<noteq> Some False"
    by (rule never_false_run)
  then show ?thesis
    by (simp add: run_Cons run_Nil eval_defs store_defs)
qed

subsection \<open>Unmounting with the timer pending\<close>

text \<open>
  C2, evaluated on the code. The closure \<open>() => clearTimeout(timer)\<close> is returned by the
  async function \<open>checkFirstTime\<close>, so it becomes the value of a promise nobody reads; the
  effect callback returns nothing and React has no cleanup to run. After the read has
  resolved at time 0 and the screen is unmounted at 1000 ms, the timer is still pending,
  and at 3000 ms \<open>onDone\<close> is called on the unmounted screen.
\<close>

theorem unmount_leaves_timer_pending:
  "timers (SplashScreen_run (SplashScreen_mount returning_store 0)
      [PromiseSettles, TimePasses 1000, Unmount]) = [(0, 3000)]
   \<and> effectCleanup (SplashScreen_run (SplashScreen_mount returning_store 0)
      [PromiseSettles, TimePasses 1000, Unmount]) = None
   \<and> asyncResult (SplashScreen_run (SplashScreen_mount returning_store 0)
      [PromiseSettles, TimePasses 1000, Unmount]) = Some (ClearTimeout 0)
   \<and> doneCalls (SplashScreen_run (SplashScreen_mount returning_store 0)
      [PromiseSettles, TimePasses 1000, Unmount, TimePasses 2000])
       = [\<lparr>calledAt = 3000, mountedThen = False\<rparr>]"
  by (simp add: run_Cons run_Nil eval_defs store_defs)

subsection \<open>How often \<open>onDone\<close> is called\<close>

text \<open>
  C1, as stated, fails. The screen by itself calls \<open>onDone\<close> on every press of
  \<open>Get Started\<close>: kept mounted by its parent, two presses at the last entry give two
  calls. And a lifetime can end without a call: a first-time user whose screen is
  unmounted after the first press leaves no call and no timer behind.
\<close>

theorem onDone_not_exactly_once:
  "length (doneCalls (SplashScreen_run (SplashScreen_mount first_run_store 0)
      [PromiseSettles, PromiseSettles, Press, AnimationEnds 0, AnimationEnds 0,
       Press, AnimationEnds 0, AnimationEnds 0, Press, Press])) = 2
   \<and> doneCalls (SplashScreen_run (SplashScreen_mount first_run_store 0)
        [PromiseSettles, PromiseSettles, Press, Unmount]) = []
   \<and> timers (SplashScreen_run (SplashScreen_mount first_run_store 0)
        [PromiseSettles, PromiseSettles, Press, Unmount]) = []
   \<and> \<not> mounted (SplashScreen_run (SplashScreen_mount first_run_store 0)
        [PromiseSettles, PromiseSettles, Press, Unmount])"
  by (simp add: run_Cons run_Nil eval_defs store_defs)

lemma tidy_promise_settles:
  assumes "tidy s"
  shows "tidy (promise_settles s)"
proof (cases "pc s")
  case AwaitGetItem
  with assms have "timers s = []" "doneCalls s = []" "isFirstTime s = None"
    "effectCleanup s = None"
    by (simp_all add: tidy_def)
  with AwaitGetItem show ?thesis
    by (simp add: tidy_def promise_settles_def after_getItem_def catch_block_def onDone_def
        onDone_at_def setTimeout_onDone_def getItem_def)
next
  case AwaitSetItem
  with assms have "timers s = []" "doneCalls s = []" "isFirstTime s = None"
    "effectCleanup s = None"
    by (simp_all add: tidy_def)
  with AwaitSetItem show ?thesis
    by (simp add: tidy_def promise_settles_def after_setItem_def catch_block_def onDone_def
        onDone_at_def setIsFirstTime_def setItem_def)
next
  case Settled
  with assms show ?thesis
    by (simp add: promise_settles_def)
qed

lemma tidy_time_passes:
  assumes "tidy s"
  shows "tidy (time_passes n s)"
proof (cases "timers s")
  case Nil
  with assms show ?thesis
    by (simp add: tidy_def time_passes_fields)
next
  case (Cons x xs)
  with assms have xs: "xs = []" and d: "doneCalls s = []" and f: "isFirstTime s = None"
    and p: "pc s = Settled" and c: "effectCleanup s = None"
    by (auto simp: tidy_def)
  obtain i due where x: "x = (i, due)"
    by (cases x)
  show ?thesis
    using Cons xs d f p c x by (simp add: tidy_def time_passes_fields)
qed

lemma tidy_press:
  assumes "tidy s" and "doneCalls s = [] \<or> \<not> mounted s"
  shows "tidy (press s)"
  using assms by (auto simp: tidy_def press_fields press_doneCalls)

lemma tidy_animation_ends:
  assumes "tidy s"
  shows "tidy (animation_ends i s)"
  using assms by (simp add: tidy_def animation_ends_fields)

lemma unmount_tidy:
  assumes "tidy s"
  shows "unmount s = s\<lparr>mounted := False\<rparr>"
  using assms by (simp add: tidy_def unmount_def)

lemma tidy_unmount:
  assumes "tidy s"
  shows "tidy (unmount s)"
  using assms by (simp add: unmount_tidy) (simp add: tidy_def)

lemma tidy_step:
  assumes "tidy s" and "doneCalls s = [] \<or> \<not> mounted s"
  shows "tidy (SplashScreen_step s e)"
  using assms
  by (cases e) (simp_all add: tidy_promise_settles tidy_time_passes tidy_press
      tidy_animation_ends tidy_unmount)

lemma once_step:
  assumes "once a"
  shows "once (App_step a e)"
proof (cases e)
  case (ToPane x)
  with assms show ?thesis
    by (simp add: once_def split: option.splits)
next
  case (ToSplash ev)
  let ?s = "splashScreen a"
  from assms have t: "tidy ?s" and d: "doneCalls ?s = [] \<or> \<not> mounted ?s"
    and m: "\<not> mounted ?s \<or> appMounted a \<and> showSplash a"
    and sh: "showSplash a \<or> length (doneCalls ?s) = 1"
    by (simp_all add: once_def)
  show ?thesis
  proof (cases "ev = Unmount")
    case True
    with ToSplash t sh show ?thesis
      by (simp add: once_def tidy_unmount unmount_fields)
  next
    case False
    let ?s' = "SplashScreen_step ?s ev"
    have t': "tidy ?s'"
      using t d by (rule tidy_step)
    have m': "mounted ?s' = mounted ?s"
      using False by (rule step_mounted)
    have le: "length (doneCalls ?s) \<le> length (doneCalls ?s')"
      by (rule step_doneCalls)
    have le1: "length (doneCalls ?s') \<le> 1"
      using t' by (simp add: tidy_def)
    have step: "App_step a (ToSplash ev) =
        (if length (doneCalls ?s) < length (doneCalls ?s')
         then setShowSplash_False (a\<lparr>splashScreen := ?s'\<rparr>)
         else a\<lparr>splashScreen := ?s'\<rparr>)"
      using False by (cases ev) (simp_all add: Let_def)
    show ?thesis
    proof (cases "length (doneCalls ?s) < length (doneCalls ?s')")
      case grew: True
      then have one: "length (doneCalls ?s') = 1"
        using le1 by simp
      from grew one have "length (doneCalls ?s) = 0"
        by simp
      then have was: "doneCalls ?s = []"
        by simp
      show ?thesis
      proof (cases "appMounted a \<and> showSplash a")
        case True
        then show ?thesis
          using ToSplash step grew one t'
          by (simp add: once_def setShowSplash_False_def tidy_unmount unmount_fields)
      next
        case False
        with m have "\<not> mounted ?s" by auto
        with False show ?thesis
          using ToSplash step grew one t' m' sh was
          by (auto simp: once_def setShowSplash_False_def)
      qed
    next
      case same: False
      with le have eq: "length (doneCalls ?s') = length (doneCalls ?s)"
        by simp
      then have "doneCalls ?s' = [] \<or> \<not> mounted ?s'"
        using d m' by auto
      then show ?thesis
        using ToSplash step same t' m m' sh eq
        by (auto simp: once_def)
    qed
  qed
qed

lemma once_run:
  assumes "once a"
  shows "once (App_run a evs)"
  using assms
  by (induction evs arbitrary: a) (simp_all add: App_run_Nil App_run_Cons once_step)

lemma once_mount: "once (App_mount store t)"
  by (simp add: once_def tidy_def App_mount_def SplashScreen_mount_def)

lemma App_step_plain:
  assumes "e \<noteq> Unmount"
  shows "App_step a (ToSplash e) =
     (if length (doneCalls (splashScreen a)) < length (doneCalls (SplashScreen_step (splashScreen a) e))
      then setShowSplash_False (a\<lparr>splashScreen := SplashScreen_step (splashScreen a) e\<rparr>)
      else a\<lparr>splashScreen := SplashScreen_step (splashScreen a) e\<rparr>)"
  using assms by (cases e) (simp_all add: Let_def)

lemma complete_path_once:
  "length (doneCalls (splashScreen (App_run (App_mount store t) (map ToSplash (complete_path store))))) = 1
   \<and> \<not> showSplash (App_run (App_mount store t) (map ToSplash (complete_path store)))"
proof -
  consider (r) "getItemRejects store"
    | (v) "\<not> getItemRejects store" "truthy (items store ''hasVisited'')"
    | (w) "\<not> getItemRejects store" "\<not> truthy (items store ''hasVisited'')" "setItemRejects store"
    | (c) "\<not> getItemRejects store" "\<not> truthy (items store ''hasVisited'')" "\<not> setItemRejects store"
    by blast
  then show ?thesis
  proof cases
    case r
    then show ?thesis
      by (simp add: complete_path_def App_run_Cons App_run_Nil App_mount_def App_step_plain
          setShowSplash_False_def eval_defs)
  next
    case v
    then show ?thesis
      by (simp add: complete_path_def App_run_Cons App_run_Nil App_mount_def App_step_plain
          setShowSplash_False_def SplashScreen_mount_def promise_settles_def after_getItem_def
          getItem_def setTimeout_onDone_def time_passes_def onDone_at_def unmount_def Let_def)
  next
    case w
    then show ?thesis
      by (simp add: complete_path_def App_run_Cons App_run_Nil App_mount_def App_step_plain
          setShowSplash_False_def SplashScreen_mount_def promise_settles_def after_getItem_def
          after_setItem_def catch_block_def onDone_def
          getItem_def setItem_def onDone_at_def unmount_def)
  next
    case c
    then show ?thesis
      by (simp add: complete_path_def App_run_Cons App_run_Nil App_mount_def App_step_plain
          setShowSplash_False_def SplashScreen_mount_def promise_settles_def after_getItem_def
          after_setItem_def setIsFirstTime_def getItem_def setItem_def press_def
          SplashScreen_render_def FAQs_def handleNextFAQ_def animation_ends_def
          start_callback_def setCurrentFAQ_def onDone_def onDone_at_def unmount_def Let_def)
  qed
qed

text \<open>
  C1, amended. Under \<open>App\<close>, whose \<open>onDone\<close> sets \<open>showSplash\<close> to false and so unmounts
  the screen, over every sequence of events \<open>onDone\<close> has been called at most once, and
  exactly once whenever the screen has been replaced by the browser pane. For every store,
  the path it leads to (rejected read, timer, rejected write, or the carousel pressed
  through its three entries), run to its end, has exactly one call and ends with the
  screen replaced.
\<close>

theorem App_onDone_once:
  "length (doneCalls (splashScreen (App_run (App_mount store t) evs))) \<le> 1
   \<and> (\<not> showSplash (App_run (App_mount store t) evs) \<longrightarrow>
        length (doneCalls (splashScreen (App_run (App_mount store t) evs))) = 1)
   \<and> length (doneCalls (splashScreen
        (App_run (App_mount store t) (map ToSplash (complete_path store))))) = 1
   \<and> \<not> showSplash (App_run (App_mount store t) (map ToSplash (complete_path store)))"
proof -
  have "once (App_run (App_mount store t) evs)"
    using once_mount by (rule once_run)
  then show ?thesis
    using complete_path_once [of store t] by (auto simp: once_def tidy_def)
qed

theorem App_onDone_once_witness:
  "\<not> showSplash (App_run (App_mount returning_store 0)
       [ToSplash PromiseSettles, ToSplash (TimePasses 3000)])
   \<and> length (doneCalls (splashScreen (App_run (App_mount returning_store 0)
       [ToSplash PromiseSettles, ToSplash (TimePasses 3000)]))) = 1"
  using App_onDone_once [of returning_store 0 "[ToSplash PromiseSettles, ToSplash (TimePasses 3000)]"]
  by (simp add: App_run_Cons App_run_Nil App_mount_def App_step_plain
      setShowSplash_False_def eval_defs store_defs)

end
